theory Spec2Isabelle
  imports Main "HOL-Library.Sublist"
begin

section \<open>Python values\<close>

text \<open>
  A Python \<open>str\<close> is a sequence of Unicode code points and \<open>len\<close> counts code points,
  so a string is modelled as the list of its code points. \<open>lit\<close> reads an ASCII literal.
\<close>

type_synonym pystr = "nat list"

definition lit :: "string \<Rightarrow> pystr" where
  "lit s = map of_char s"

text \<open>The exceptions the modelled code can raise or intercept.\<close>

datatype py_error = ValueError | IntegrityError | OverflowError | CollaboratorError pystr

section \<open>Digest engine: bounding the number of texts (digest\_generator.py)\<close>

text \<open>
  \<open>xs[::step]\<close> for a positive step keeps the elements at positions \<open>0, step, 2 * step, ...\<close>;
  Python raises \<open>ValueError\<close> for a step of zero.
\<close>

fun slice_step :: "nat \<Rightarrow> 'a list \<Rightarrow> 'a list" where
  "slice_step step [] = []"
| "slice_step step (x # xs) = x # slice_step step (drop (step - 1) xs)"

definition py_slice_step :: "nat \<Rightarrow> 'a list \<Rightarrow> py_error + 'a list" where
  "py_slice_step step xs = (if step = 0 then Inl ValueError else Inr (slice_step step xs))"

text \<open>
  Lines 79-88 of \<open>generate_digest_for_chat\<close>:
  \<^verbatim>\<open>
  max_messages = 200
  if len(message_texts) > max_messages:
      step = len(message_texts) // max_messages
      message_texts = message_texts[::step][:max_messages]
  \<close>
\<close>

definition max_messages :: nat where
  "max_messages = 200"

definition limit_message_texts :: "'a list \<Rightarrow> py_error + 'a list" where
  "limit_message_texts message_texts =
     (if length message_texts > max_messages then
        (let step = length message_texts div max_messages in
         case py_slice_step step message_texts of
           Inl e \<Rightarrow> Inl e
         | Inr strided \<Rightarrow> Inr (take max_messages strided))
      else Inr message_texts)"

text \<open>An example input: 450 distinct texts.\<close>

definition texts450 :: "pystr list" where
  "texts450 = map (\<lambda>i. [i]) [0..<450]"

section \<open>Storage (database.py)\<close>

text \<open>
  A \<open>datetime\<close> is a count of microseconds on the timeline it is read from, compared
  with \<open>\<le>\<close>. \<open>datetime.now()\<close> and SQLite's \<open>CURRENT_TIMESTAMP\<close> are the clock
  reading \<open>now\<close> that every writing operation receives.
\<close>

type_synonym timestamp = int

text \<open>One record per table of \<open>init_schema\<close>, one field per column.\<close>

record source_row =
  src_id :: int
  src_identifier :: pystr
  src_type :: pystr
  src_title :: "pystr option"
  src_username :: "pystr option"
  src_last_updated :: "timestamp option"
  src_created_at :: timestamp

record message_row =
  msg_id :: int
  msg_source_id :: int
  msg_message_id :: int
  msg_date :: timestamp
  msg_text :: "pystr option"
  msg_link :: "pystr option"
  msg_sender_id :: "int option"
  msg_sender_name :: "pystr option"
  msg_created_at :: timestamp

record report_row =
  rep_id :: int
  rep_date :: pystr
  rep_content :: pystr
  rep_sent_at :: "timestamp option"
  rep_created_at :: timestamp

text \<open>
  The connection's view of the database file: the three tables in insertion order, the
  \<open>AUTOINCREMENT\<close> counter of each table (the largest key SQLite has allocated for it)
  and the connection's \<open>last_insert_rowid\<close>, the key of the most recent successful
  \<open>INSERT\<close> on any table, which is what \<open>cursor.lastrowid\<close> reads after a statement.
  The connection is opened without \<open>PRAGMA foreign_keys\<close>, so the \<open>FOREIGN KEY\<close>
  clause of \<open>messages\<close> is declared but not enforced.
\<close>

record database =
  sources :: "source_row list"
  messages :: "message_row list"
  reports :: "report_row list"
  seq_sources :: int
  seq_messages :: int
  seq_reports :: int
  last_insert_rowid :: int

definition empty_db :: database where
  "empty_db = \<lparr>sources = [], messages = [], reports = [],
     seq_sources = 0, seq_messages = 0, seq_reports = 0, last_insert_rowid = 0\<rparr>"

text \<open>
  The constraints of the schema that SQLite does enforce: primary keys and the three
  \<open>UNIQUE\<close> clauses, with every key at most the counter of its table.
\<close>

definition schema_ok :: "database \<Rightarrow> bool" where
  "schema_ok db \<longleftrightarrow>
     distinct (map src_id (sources db)) \<and>
     distinct (map src_identifier (sources db)) \<and>
     list_all (\<lambda>r. src_id r \<le> seq_sources db) (sources db) \<and>
     distinct (map msg_id (messages db)) \<and>
     distinct (map (\<lambda>m. (msg_source_id m, msg_message_id m)) (messages db)) \<and>
     list_all (\<lambda>m. msg_id m \<le> seq_messages db) (messages db) \<and>
     distinct (map rep_id (reports db)) \<and>
     distinct (map rep_date (reports db)) \<and>
     list_all (\<lambda>r. rep_id r \<le> seq_reports db) (reports db)"

subsection \<open>Sources\<close>

definition coalesce :: "'a option \<Rightarrow> 'a option \<Rightarrow> 'a option" where
  "coalesce a b = (case a of None \<Rightarrow> b | Some v \<Rightarrow> Some v)"

definition get_source_by_identifier :: "database \<Rightarrow> pystr \<Rightarrow> source_row option" where
  "get_source_by_identifier db identifier =
     find (\<lambda>r. src_identifier r = identifier) (sources db)"

text \<open>
  \<open>add_source\<close>: \<open>INSERT ... ON CONFLICT(identifier) DO UPDATE SET title = COALESCE(?, title),
  username = COALESCE(?, username), last_updated = ?\<close>, then
  \<open>SELECT id FROM sources WHERE identifier = ?\<close> and \<open>row[0] if row else None\<close>.
  SQLite allocates a key for the candidate row before it finds the conflict and keeps the
  counter it reached when the statement ends in the update.
\<close>

definition upsert_source ::
  "database \<Rightarrow> timestamp \<Rightarrow> pystr \<Rightarrow> pystr \<Rightarrow> pystr option \<Rightarrow> pystr option \<Rightarrow> database" where
  "upsert_source db now identifier source_type title username =
     (if list_ex (\<lambda>r. src_identifier r = identifier) (sources db) then
        db\<lparr>sources :=
             map (\<lambda>r. if src_identifier r = identifier
                       then r\<lparr>src_title := coalesce title (src_title r),
                              src_username := coalesce username (src_username r),
                              src_last_updated := Some now\<rparr>
                       else r) (sources db),
           seq_sources := seq_sources db + 1\<rparr>
      else
        db\<lparr>sources := sources db @
             [\<lparr>src_id = seq_sources db + 1, src_identifier = identifier,
               src_type = source_type, src_title = title, src_username = username,
               src_last_updated = Some now, src_created_at = now\<rparr>],
           seq_sources := seq_sources db + 1,
           last_insert_rowid := seq_sources db + 1\<rparr>)"

definition add_source ::
  "database \<Rightarrow> timestamp \<Rightarrow> pystr \<Rightarrow> pystr \<Rightarrow> pystr option \<Rightarrow> pystr option
     \<Rightarrow> database \<times> int option" where
  "add_source db now identifier source_type title username =
     (let db' = upsert_source db now identifier source_type title username
      in (db', map_option src_id (get_source_by_identifier db' identifier)))"

subsection \<open>Messages\<close>

text \<open>
  An SQLite \<open>INTEGER\<close> is a signed 64-bit value. Binding a Python \<open>int\<close> outside that
  range as a statement parameter raises \<open>OverflowError\<close>, before the statement runs;
  \<open>None\<close> is bound as \<open>NULL\<close>. \<open>add_message\<close> binds integers that come from the
  messaging platform; the other methods that bind an integer are called with a key that
  SQLite produced.
\<close>

definition sqlite_int :: "int \<Rightarrow> bool" where
  "sqlite_int i \<longleftrightarrow> - (2 ^ 63) \<le> i \<and> i < 2 ^ 63"

definition bindable :: "int option \<Rightarrow> bool" where
  "bindable v = (case v of None \<Rightarrow> True | Some i \<Rightarrow> sqlite_int i)"

text \<open>
  The \<open>INSERT INTO messages\<close> of \<open>add_message\<close>. Binding the three integer parameters
  raises \<open>OverflowError\<close> when one of them is out of range. The statement raises
  \<open>IntegrityError\<close> when \<open>source_id\<close> is \<open>None\<close> (the column is \<open>NOT NULL\<close>;
  \<open>add_source\<close> may return \<open>None\<close>) and when a row with the same
  \<open>(source_id, message_id)\<close> exists; a statement that fails changes nothing.
\<close>

definition insert_message ::
  "database \<Rightarrow> timestamp \<Rightarrow> int option \<Rightarrow> int \<Rightarrow> timestamp \<Rightarrow> pystr option \<Rightarrow> pystr option
     \<Rightarrow> int option \<Rightarrow> pystr option \<Rightarrow> py_error + database" where
  "insert_message db now source_id message_id date text link sender_id sender_name =
     (if \<not> (bindable source_id \<and> sqlite_int message_id \<and> bindable sender_id)
      then Inl OverflowError
      else
        (case source_id of
           None \<Rightarrow> Inl IntegrityError
         | Some sid \<Rightarrow>
             if list_ex (\<lambda>m. msg_source_id m = sid \<and> msg_message_id m = message_id)
                  (messages db)
             then Inl IntegrityError
             else Inr (db\<lparr>messages := messages db @
                         [\<lparr>msg_id = seq_messages db + 1, msg_source_id = sid,
                           msg_message_id = message_id, msg_date = date, msg_text = text,
                           msg_link = link, msg_sender_id = sender_id,
                           msg_sender_name = sender_name, msg_created_at = now\<rparr>],
                       seq_messages := seq_messages db + 1,
                       last_insert_rowid := seq_messages db + 1\<rparr>)))"

text \<open>
  \<open>add_message\<close> returns \<open>True\<close> after the insert and intercepts \<open>IntegrityError\<close> only,
  returning \<open>False\<close>; any other exception, \<open>OverflowError\<close> among them, leaves the
  method.
\<close>

definition add_message ::
  "database \<Rightarrow> timestamp \<Rightarrow> int option \<Rightarrow> int \<Rightarrow> timestamp \<Rightarrow> pystr option \<Rightarrow> pystr option
     \<Rightarrow> int option \<Rightarrow> pystr option \<Rightarrow> py_error + database \<times> bool" where
  "add_message db now source_id message_id date text link sender_id sender_name =
     (case insert_message db now source_id message_id date text link sender_id sender_name of
        Inr db' \<Rightarrow> Inr (db', True)
      | Inl IntegrityError \<Rightarrow> Inr (db, False)
      | Inl e \<Rightarrow> Inl e)"

text \<open>
  A row of \<open>SELECT m.*, s.identifier, s.type, s.title, s.username FROM messages m
  JOIN sources s ON m.source_id = s.id\<close>.
\<close>

record window_row =
  wr_message :: message_row
  wr_identifier :: pystr
  wr_type :: pystr
  wr_title :: "pystr option"
  wr_username :: "pystr option"

definition join_source :: "source_row list \<Rightarrow> message_row \<Rightarrow> window_row list" where
  "join_source srcs m =
     map (\<lambda>s. \<lparr>wr_message = m, wr_identifier = src_identifier s, wr_type = src_type s,
                wr_title = src_title s, wr_username = src_username s\<rparr>)
         (filter (\<lambda>s. msg_source_id m = src_id s) srcs)"

text \<open>
  \<open>get_messages_by_date_range\<close>: the source filter is applied \<open>if source_id:\<close>, that is
  for an argument that is neither \<open>None\<close> nor \<open>0\<close>. \<open>ORDER BY m.date\<close> is a sort on the
  date; rows of equal date are kept in table order here.
\<close>

definition get_messages_by_date_range ::
  "database \<Rightarrow> timestamp \<Rightarrow> timestamp \<Rightarrow> int option \<Rightarrow> window_row list" where
  "get_messages_by_date_range db start_date end_date source_id =
     sort_key (\<lambda>r. msg_date (wr_message r))
       (concat (map (join_source (sources db))
          (filter (\<lambda>m. msg_date m \<ge> start_date \<and> msg_date m < end_date \<and>
                       (case source_id of
                          None \<Rightarrow> True
                        | Some sid \<Rightarrow> sid = 0 \<or> msg_source_id m = sid))
                  (messages db))))"

subsection \<open>Reports\<close>

text \<open>
  \<open>save_report\<close>: \<open>INSERT INTO reports (date, content) ... ON CONFLICT(date) DO UPDATE SET
  content = ?\<close>, returning \<open>cursor.lastrowid\<close>. An upsert that ends in the update is not
  an insert, so it leaves \<open>last_insert_rowid\<close> as it was.
\<close>

definition save_report :: "database \<Rightarrow> timestamp \<Rightarrow> pystr \<Rightarrow> pystr \<Rightarrow> database \<times> int" where
  "save_report db now date content =
     (let db' =
        (if list_ex (\<lambda>r. rep_date r = date) (reports db) then
           db\<lparr>reports :=
                map (\<lambda>r. if rep_date r = date then r\<lparr>rep_content := content\<rparr> else r)
                    (reports db),
              seq_reports := seq_reports db + 1\<rparr>
         else
           db\<lparr>reports := reports db @
                [\<lparr>rep_id = seq_reports db + 1, rep_date = date, rep_content = content,
                  rep_sent_at = None, rep_created_at = now\<rparr>],
              seq_reports := seq_reports db + 1,
              last_insert_rowid := seq_reports db + 1\<rparr>)
      in (db', last_insert_rowid db'))"

definition mark_report_sent :: "database \<Rightarrow> timestamp \<Rightarrow> int \<Rightarrow> database" where
  "mark_report_sent db now report_id =
     db\<lparr>reports :=
          map (\<lambda>r. if rep_id r = report_id then r\<lparr>rep_sent_at := Some now\<rparr> else r)
              (reports db)\<rparr>"

definition get_report_by_date :: "database \<Rightarrow> pystr \<Rightarrow> report_row option" where
  "get_report_by_date db date = find (\<lambda>r. rep_date r = date) (reports db)"

section \<open>Collector (collector.py)\<close>

text \<open>
  The messaging collaborator as the collector uses it: \<open>get_entity_info\<close> and
  \<open>get_messages\<close>, each of which either raises or returns. A fetched message is the
  dictionary built by \<open>_extract_message_data\<close>.
\<close>

record entity_info =
  ei_title :: "pystr option"
  ei_username :: "pystr option"

record fetched_message =
  fm_message_id :: int
  fm_date :: timestamp
  fm_text :: pystr
  fm_link :: pystr
  fm_sender_id :: "int option"
  fm_sender_name :: "pystr option"

record telegram =
  get_entity_info :: "pystr \<Rightarrow> py_error + entity_info"
  get_messages :: "pystr \<Rightarrow> timestamp \<Rightarrow> timestamp \<Rightarrow> py_error + fetched_message list"

text \<open>
  The \<open>for msg in messages\<close> loop of \<open>collect_from_source\<close>, counting the new messages.
  Every insert is committed, so an exception leaves the database as the loop made it.
\<close>

fun store_messages ::
  "database \<Rightarrow> timestamp \<Rightarrow> int option \<Rightarrow> fetched_message list \<Rightarrow> nat
     \<Rightarrow> database \<times> (py_error + nat)" where
  "store_messages db now source_id [] new_messages = (db, Inr new_messages)"
| "store_messages db now source_id (msg # rest) new_messages =
     (case add_message db now source_id (fm_message_id msg) (fm_date msg)
             (Some (fm_text msg)) (Some (fm_link msg)) (fm_sender_id msg) (fm_sender_name msg) of
        Inl e \<Rightarrow> (db, Inl e)
      | Inr (db', is_new) \<Rightarrow>
          store_messages db' now source_id rest
            (if is_new then new_messages + 1 else new_messages))"

text \<open>
  \<open>collect_from_source\<close>: the whole body is inside \<open>try\<close>, and \<open>except Exception\<close>
  returns \<open>(0, 0)\<close>. The result is \<open>(len(messages), new_messages)\<close>; a raised exception
  would be \<open>Inl\<close>.
\<close>

definition collect_from_source ::
  "telegram \<Rightarrow> database \<Rightarrow> timestamp \<Rightarrow> pystr \<Rightarrow> pystr \<Rightarrow> timestamp \<Rightarrow> timestamp
     \<Rightarrow> database \<times> (py_error + nat \<times> nat)" where
  "collect_from_source tg db now identifier source_type start_date end_date =
     (case get_entity_info tg identifier of
        Inl e \<Rightarrow> (db, Inr (0, 0))
      | Inr entity \<Rightarrow>
          (let (db1, source_id) =
                 add_source db now identifier source_type (ei_title entity) (ei_username entity)
           in case get_messages tg identifier start_date end_date of
                Inl e \<Rightarrow> (db1, Inr (0, 0))
              | Inr msgs \<Rightarrow>
                  (case store_messages db1 now source_id msgs 0 of
                     (db2, Inl e) \<Rightarrow> (db2, Inr (0, 0))
                   | (db2, Inr new_messages) \<Rightarrow> (db2, Inr (length msgs, new_messages)))))"

text \<open>The statistics dictionary; \<open>failed_sources\<close> is \<open>len(failed_sources)\<close>.\<close>

record stats =
  total_sources :: nat
  total_messages :: nat
  new_messages :: nat
  failed_sources :: nat

text \<open>
  The loop of \<open>collect_from_all_sources\<close> with its three accumulators; the identifier is
  appended to \<open>failed_sources\<close> in the \<open>except\<close> branch around the call.
\<close>

fun collect_loop ::
  "telegram \<Rightarrow> database \<Rightarrow> timestamp \<Rightarrow> (pystr \<times> pystr) list \<Rightarrow> timestamp \<Rightarrow> timestamp
     \<Rightarrow> nat \<Rightarrow> nat \<Rightarrow> pystr list \<Rightarrow> database \<times> nat \<times> nat \<times> pystr list" where
  "collect_loop tg db now [] start_date end_date total_count total_new failed =
     (db, total_count, total_new, failed)"
| "collect_loop tg db now ((identifier, source_type) # rest) start_date end_date
       total_count total_new failed =
     (case collect_from_source tg db now identifier source_type start_date end_date of
        (db', Inr (messages_count, new_count)) \<Rightarrow>
          collect_loop tg db' now rest start_date end_date
            (total_count + messages_count) (total_new + new_count) failed
      | (db', Inl e) \<Rightarrow>
          collect_loop tg db' now rest start_date end_date
            total_count total_new (failed @ [identifier]))"

definition collect_from_all_sources ::
  "telegram \<Rightarrow> database \<Rightarrow> timestamp \<Rightarrow> (pystr \<times> pystr) list \<Rightarrow> timestamp \<Rightarrow> timestamp
     \<Rightarrow> database \<times> stats" where
  "collect_from_all_sources tg db now srcs start_date end_date =
     (case collect_loop tg db now srcs start_date end_date 0 0 [] of
        (db', total_count, total_new, failed) \<Rightarrow>
          (db', \<lparr>total_sources = length srcs, total_messages = total_count,
                 new_messages = total_new, failed_sources = length failed\<rparr>))"

text \<open>
  \<open>collect_yesterday\<close>: \<open>today = datetime.now().replace(hour=0, minute=0, second=0,
  microsecond=0)\<close>, and the window is from \<open>today - timedelta(days=1)\<close> to \<open>today\<close>.
\<close>

definition day :: int where
  "day = 86400 * 1000000"

definition midnight :: "timestamp \<Rightarrow> timestamp" where
  "midnight t = t - t mod day"

definition yesterday_window :: "timestamp \<Rightarrow> timestamp \<times> timestamp" where
  "yesterday_window now = (let today = midnight now in (today - day, today))"

definition collect_yesterday ::
  "telegram \<Rightarrow> database \<Rightarrow> timestamp \<Rightarrow> (pystr \<times> pystr) list \<Rightarrow> database \<times> stats" where
  "collect_yesterday tg db now srcs =
     (case yesterday_window now of
        (yesterday_start, yesterday_end) \<Rightarrow>
          collect_from_all_sources tg db now srcs yesterday_start yesterday_end)"

section \<open>Digest engine: one chat (digest\_generator.py)\<close>

text \<open>
  The representative texts: \<open>[sender_name] text\<close> when both are non-empty, the text alone
  when only it is non-empty, nothing otherwise.
\<close>

definition truthy :: "pystr option \<Rightarrow> bool" where
  "truthy v = (case v of None \<Rightarrow> False | Some t \<Rightarrow> t \<noteq> [])"

definition str_of :: "pystr option \<Rightarrow> pystr" where
  "str_of v = (case v of None \<Rightarrow> [] | Some t \<Rightarrow> t)"

fun build_message_texts :: "window_row list \<Rightarrow> pystr list" where
  "build_message_texts [] = []"
| "build_message_texts (r # rest) =
     (let m = wr_message r in
      if truthy (msg_sender_name m) \<and> truthy (msg_text m) then
        (lit ''['' @ str_of (msg_sender_name m) @ lit ''] '' @ str_of (msg_text m))
          # build_message_texts rest
      else if truthy (msg_text m) then str_of (msg_text m) # build_message_texts rest
      else build_message_texts rest)"

text \<open>
  \<open>generate_digest_for_chat\<close>, with the summarization collaborator as a function that
  raises or returns. The slice is outside the \<open>try\<close>, so its exception would leave the
  method; the collaborator's is turned into \<open>None\<close>.
\<close>

definition generate_digest_for_chat ::
  "(pystr list \<Rightarrow> nat \<Rightarrow> py_error + pystr) \<Rightarrow> database \<Rightarrow> pystr \<Rightarrow> timestamp \<Rightarrow> timestamp \<Rightarrow> nat
     \<Rightarrow> py_error + pystr option" where
  "generate_digest_for_chat bothub db identifier start_date end_date max_topics =
     (case get_source_by_identifier db identifier of
        None \<Rightarrow> Inr None
      | Some source \<Rightarrow>
          (let msgs = get_messages_by_date_range db start_date end_date (Some (src_id source)) in
           if msgs = [] then Inr None
           else
             (let message_texts = build_message_texts msgs in
              if message_texts = [] then Inr None
              else
                (case limit_message_texts message_texts of
                   Inl e \<Rightarrow> Inl e
                 | Inr limited \<Rightarrow>
                     (case bothub limited max_topics of
                        Inl e \<Rightarrow> Inr None
                      | Inr digest \<Rightarrow> Inr (Some digest))))))"

section \<open>Report assembler: one message (report\_formatter.py)\<close>

text \<open>
  \<open>text.replace(old, new)\<close>: every non-overlapping occurrence of \<open>old\<close>, found from the
  left, is replaced; for an empty \<open>old\<close>, \<open>new\<close> is put before every character and at
  the end.
\<close>

function str_replace :: "pystr \<Rightarrow> pystr \<Rightarrow> pystr \<Rightarrow> pystr" where
  "str_replace old new [] = (if old = [] then new else [])"
| "str_replace old new (c # cs) =
     (if old = [] then new @ c # str_replace old new cs
      else if prefix old (c # cs) then new @ str_replace old new (drop (length old) (c # cs))
      else c # str_replace old new cs)"
  by pat_completeness auto
termination
  by (relation "measure (\<lambda>(old, new, text). length text)") auto

text \<open>
  \<open>_escape_html\<close>: the replacements dictionary is iterated in insertion order, so the
  three replacements run in the order \<open>&\<close>, \<open><\<close>, \<open>>\<close>.
\<close>

definition replacements :: "(pystr \<times> pystr) list" where
  "replacements = [(lit ''&'', lit ''&amp;''), (lit ''<'', lit ''&lt;''), (lit ''>'', lit ''&gt;'')]"

definition escape_html :: "pystr \<Rightarrow> pystr" where
  "escape_html text = fold (\<lambda>(old, new) t. str_replace old new t) replacements text"

text \<open>
  The message dictionary as \<open>_format_message\<close> reads it: \<open>text\<close>, \<open>link\<close> and \<open>date\<close>,
  each possibly absent or \<open>None\<close>; the date is a string or a \<open>datetime\<close>, of which
  \<open>strftime("%H:%M")\<close> reads the hour and the minute.
\<close>

datatype date_value = DateStr pystr | DateTime nat nat

record report_message =
  rm_text :: "pystr option"
  rm_link :: "pystr option"
  rm_date :: "date_value option"

definition two_digits :: "nat \<Rightarrow> pystr" where
  "two_digits n = [48 + n div 10 mod 10, 48 + n mod 10]"

definition clock_glyph :: pystr where
  "clock_glyph = [128336]"

definition arrow_glyph :: pystr where
  "arrow_glyph = [8599]"

definition newline :: nat where
  "newline = 10"

definition max_length_text :: nat where
  "max_length_text = 300"

definition truncate_text :: "pystr option \<Rightarrow> pystr option" where
  "truncate_text text =
     (if truthy text \<and> length (str_of text) > max_length_text
      then Some (take max_length_text (str_of text) @ lit ''...'')
      else text)"

definition time_prefix :: "date_value option \<Rightarrow> pystr" where
  "time_prefix date =
     (case date of
        None \<Rightarrow> []
      | Some (DateStr d) \<Rightarrow> if d = [] then [] else clock_glyph @ lit '' '' @ d @ lit '' ''
      | Some (DateTime h m) \<Rightarrow>
          clock_glyph @ lit '' '' @ (two_digits h @ lit '':'' @ two_digits m) @ lit '' '')"

definition link_marker :: "pystr option \<Rightarrow> pystr" where
  "link_marker link =
     (if truthy link
      then lit '' <a href='' @ [34] @ str_of link @ [34] @ lit ''>'' @ arrow_glyph @ lit ''</a>''
      else [])"

definition format_message :: "report_message \<Rightarrow> pystr" where
  "format_message message =
     (let text = truncate_text (rm_text message);
          formatted = time_prefix (rm_date message);
          formatted = (if truthy text then formatted @ escape_html (str_of text) else formatted);
          formatted = formatted @ link_marker (rm_link message)
      in formatted @ [newline, newline])"

section \<open>Outbound chunking (telegram\_client.py)\<close>

text \<open>\<open>text.split("\n")\<close>: the pieces between separators, at least one piece.\<close>

fun split_on :: "nat \<Rightarrow> pystr \<Rightarrow> pystr list" where
  "split_on sep [] = [ [] ]"
| "split_on sep (c # cs) =
     (if c = sep then [] # split_on sep cs
      else (case split_on sep cs of
              [] \<Rightarrow> [ [c] ]
            | l # ls \<Rightarrow> (c # l) # ls))"

text \<open>
  The inner loop \<open>while len(line) > max_length: parts.append(line[:max_length]);
  line = line[max_length:]\<close>. For \<open>max_length = 0\<close> it never ends, which is \<open>None\<close>.
\<close>

partial_function (option) hard_split ::
  "nat \<Rightarrow> pystr \<Rightarrow> pystr list \<Rightarrow> (pystr list \<times> pystr) option" where
  "hard_split max_length line parts =
     (if length line > max_length
      then hard_split max_length (drop max_length line) (parts @ [take max_length line])
      else Some (parts, line))"

text \<open>The \<open>for line in lines\<close> loop of \<open>_split_message\<close> on \<open>parts\<close> and \<open>current_part\<close>.\<close>

fun split_loop ::
  "nat \<Rightarrow> pystr list \<Rightarrow> pystr list \<Rightarrow> pystr \<Rightarrow> (pystr list \<times> pystr) option" where
  "split_loop max_length [] parts current_part = Some (parts, current_part)"
| "split_loop max_length (line # rest) parts current_part =
     (if length current_part + length line + 1 > max_length then
        (let parts1 = (if current_part \<noteq> [] then parts @ [current_part] else parts) in
         if length line > max_length then
           (case hard_split max_length line parts1 of
              None \<Rightarrow> None
            | Some (parts2, line') \<Rightarrow> split_loop max_length rest parts2 line')
         else split_loop max_length rest parts1 line)
      else
        split_loop max_length rest parts
          ((if current_part \<noteq> [] then current_part @ [newline] else current_part) @ line))"

definition split_message :: "pystr \<Rightarrow> nat \<Rightarrow> pystr list option" where
  "split_message text max_length =
     (case split_loop max_length (split_on newline text) [] [] of
        None \<Rightarrow> None
      | Some (parts, current_part) \<Rightarrow>
          Some (if current_part \<noteq> [] then parts @ [current_part] else parts))"

text \<open>Concatenating parts with a newline between neighbours: \<open>"\n".join(parts)\<close>.\<close>

fun join_lines :: "pystr list \<Rightarrow> pystr" where
  "join_lines [] = []"
| "join_lines [p] = p"
| "join_lines (p # q # ps) = p @ [newline] @ join_lines (q # ps)"

section \<open>Notions used in the statements, and example states\<close>

text \<open>A message has a source when its \<open>source_id\<close> is the key of a stored source.\<close>

definition has_source :: "database \<Rightarrow> message_row \<Rightarrow> bool" where
  "has_source db m = list_ex (\<lambda>s. src_id s = msg_source_id m) (sources db)"


text \<open>A database after one \<open>add_source\<close> call.\<close>

definition news_db :: database where
  "news_db = fst (add_source empty_db 0 (lit ''@news'') (lit ''channel'')
                    (Some (lit ''News'')) (Some (lit ''news'')))"

text \<open>
  What the \<open>FOREIGN KEY\<close> clause of \<open>messages\<close> declares: a \<open>source_id\<close> is the key of
  a stored source. The collector passes to \<open>add_message\<close> the key that \<open>add_source\<close>
  has just returned and nothing deletes a source, so every database the program writes
  is \<open>sourced\<close>.
\<close>

definition source_key :: "database \<Rightarrow> int \<Rightarrow> bool" where
  "source_key db sid = list_ex (\<lambda>s. src_id s = sid) (sources db)"

definition sourced :: "database \<Rightarrow> bool" where
  "sourced db = list_all (has_source db) (messages db)"

text \<open>
  The four boundary instants of day \<open>n\<close>: 23:59:59 of the day before, 00:00:00 and
  12:00:00 of day \<open>n\<close>, and 00:00:00 of the day after, stored for one source by the
  collector's insert loop.
\<close>

definition half_day :: int where
  "half_day = 12 * 3600 * 1000000"

definition one_second :: int where
  "one_second = 1000000"

definition boundary_messages :: "int \<Rightarrow> fetched_message list" where
  "boundary_messages n =
     map (\<lambda>(k, d). \<lparr>fm_message_id = k, fm_date = d, fm_text = [], fm_link = [],
                      fm_sender_id = None, fm_sender_name = None\<rparr>)
       [(1, n * day - one_second), (2, n * day), (3, n * day + half_day), (4, (n + 1) * day)]"

definition boundary_db :: "int \<Rightarrow> database" where
  "boundary_db n = fst (store_messages news_db 0 (Some 1) (boundary_messages n) 0)"

text \<open>
  States of the report table: a delivered report; a second run of the same day, in which
  messages are inserted after the report row exists; and a source whose metadata is
  refreshed with an empty title.
\<close>

definition report_day :: pystr where
  "report_day = lit ''2024-01-01''"

definition sent_report_db :: database where
  "sent_report_db =
     mark_report_sent (fst (save_report news_db 0 report_day (lit ''first''))) 7 1"

definition rerun_db :: database where
  "rerun_db =
     fst (store_messages (fst (save_report news_db 0 report_day (lit ''first''))) 0 (Some 1)
            (boundary_messages 1) 0)"

definition renamed_db :: database where
  "renamed_db = fst (add_source news_db 1 (lit ''@news'') (lit ''channel'') (Some []) None)"

text \<open>
  A run over three sources in which resolving the second one raises, and every other
  source has one message.
\<close>

definition one_message :: "timestamp \<Rightarrow> fetched_message list" where
  "one_message d = [\<lparr>fm_message_id = 1, fm_date = d, fm_text = lit ''post'', fm_link = [],
                      fm_sender_id = None, fm_sender_name = None\<rparr>]"

definition failing_telegram :: telegram where
  "failing_telegram =
     \<lparr>get_entity_info = (\<lambda>identifier.
          if identifier = lit ''@gone'' then Inl (CollaboratorError (lit ''not found''))
          else Inr \<lparr>ei_title = Some identifier, ei_username = None\<rparr>),
      get_messages = (\<lambda>identifier start_date end_date. Inr (one_message start_date))\<rparr>"

definition three_sources :: "(pystr \<times> pystr) list" where
  "three_sources = [(lit ''@a'', lit ''channel''), (lit ''@gone'', lit ''chat''),
                    (lit ''@b'', lit ''channel'')]"

text \<open>
  Escaping one character at a time, which is what a reader of the rendered text expects;
  and a message whose body and link both contain markup characters.
\<close>

definition escape_char :: "nat \<Rightarrow> pystr" where
  "escape_char c =
     (if c = 38 then lit ''&amp;'' else if c = 60 then lit ''&lt;''
      else if c = 62 then lit ''&gt;'' else [c])"

definition bold_message :: report_message where
  "bold_message = \<lparr>rm_text = Some (lit ''A & <b>bold</b>''),
                    rm_link = Some (lit ''https://t.me/news/1?a=1&b=2''), rm_date = None\<rparr>"

text \<open>
  A text of 4003 characters: a line of 4000 characters, a blank line, and a last line.
\<close>

definition blank_line_text :: pystr where
  "blank_line_text = replicate 4000 97 @ [newline, newline, 98]"

text \<open>
  What \<open>_split_message\<close> would return if the loop stopped now: the parts, and
  \<open>current_part\<close> when it is not empty.
\<close>

definition pending :: "pystr list \<Rightarrow> pystr \<Rightarrow> pystr list" where
  "pending parts current_part =
     (if current_part \<noteq> [] then parts @ [current_part] else parts)"

section \<open>Properties of the down-sampling step\<close>

lemma subseq_drop: "subseq (drop n xs) xs"
  by (metis append_take_drop_id list_emb_append2 subseq_order.order_refl)

lemma subseq_slice_step: "subseq (slice_step step xs) xs"
proof (induction step xs rule: slice_step.induct)
  case (1 step)
  show ?case by simp
next
  case (2 step x xs)
  have "subseq (slice_step step (drop (step - 1) xs)) xs"
    using "2.IH" subseq_drop subseq_order.order_trans by blast
  then show ?case by simp
qed

lemma length_slice_step:
  "0 < step \<Longrightarrow> length (slice_step step xs) = (length xs + step - 1) div step"
proof (induction step xs rule: slice_step.induct)
  case (1 step)
  then show ?case by simp
next
  case (2 step x xs)
  have "length (slice_step step (drop (step - 1) xs)) = length xs div step"
  proof (cases "length xs < step - 1")
    case True
    with 2 show ?thesis by simp
  next
    case False
    with 2 show ?thesis by simp
  qed
  moreover have "(length xs + step) div step = length xs div step + 1"
    using "2.prems" by (metis div_add_self2 less_numeral_extra(3))
  ultimately show ?case by simp
qed

lemma slice_step_one: "slice_step (Suc 0) xs = xs"
  by (induction xs) simp_all

lemma length_slice_step_ge:
  assumes "0 < step" and "cap * step \<le> length xs"
  shows "cap \<le> length (slice_step step xs)"
proof -
  have "cap * step div step \<le> (length xs + step - 1) div step"
    using assms by (intro div_le_mono) simp
  then show ?thesis
    using assms by (simp add: length_slice_step)
qed

text \<open>
  C7: a list of more than 200 texts is reduced to at most 200 texts that form an
  order-preserving subsequence of the input (the step is never zero, so the slice does
  not raise); a list of at most 200 texts is passed through unchanged.
\<close>

theorem limit_message_texts_cap_and_order:
  "(max_messages < length xs \<longrightarrow>
      (\<exists>ys. limit_message_texts xs = Inr ys \<and> length ys \<le> 200 \<and> subseq ys xs)) \<and>
   (length xs \<le> max_messages \<longrightarrow> limit_message_texts xs = Inr xs)"
proof (intro conjI impI)
  assume big: "max_messages < length xs"
  then have "0 < length xs div max_messages"
    by (simp add: max_messages_def div_greater_zero_iff)
  then have eq: "limit_message_texts xs =
      Inr (take max_messages (slice_step (length xs div max_messages) xs))"
    using big by (simp add: limit_message_texts_def py_slice_step_def)
  have "subseq (take max_messages (slice_step (length xs div max_messages) xs)) xs"
    by (metis append_take_drop_id list_emb_append2 subseq_order.order_refl
        subseq_order.order_trans subseq_slice_step prefix_imp_subseq take_is_prefix)
  then show "\<exists>ys. limit_message_texts xs = Inr ys \<and> length ys \<le> 200 \<and> subseq ys xs"
    using eq by (simp add: max_messages_def)
next
  assume "length xs \<le> max_messages"
  then show "limit_message_texts xs = Inr xs"
    by (simp add: limit_message_texts_def)
qed

theorem limit_message_texts_cap_and_order_witness:
  "(max_messages < length texts450 \<and>
      (\<exists>ys. limit_message_texts texts450 = Inr ys \<and> length ys \<le> 200 \<and> subseq ys texts450)) \<and>
   (length [lit ''a'', lit ''b''] \<le> max_messages \<and>
      limit_message_texts [lit ''a'', lit ''b''] = Inr [lit ''a'', lit ''b''])"
  using limit_message_texts_cap_and_order [of texts450]
    limit_message_texts_cap_and_order [of "[lit ''a'', lit ''b'']"]
  by (simp add: texts450_def max_messages_def)

text \<open>
  C9: for more than 200 texts the step is at least 1, the strided selection has at least
  200 elements, and the result has exactly 200; below 400 texts the step is 1 and the
  result is the first 200 texts.
\<close>

theorem limit_message_texts_exactly_cap:
  assumes "max_messages < length xs"
  shows "1 \<le> length xs div max_messages \<and>
         200 \<le> length (slice_step (length xs div max_messages) xs) \<and>
         (\<exists>ys. limit_message_texts xs = Inr ys \<and> length ys = 200) \<and>
         (length xs < 400 \<longrightarrow>
            length xs div max_messages = 1 \<and> limit_message_texts xs = Inr (take 200 xs))"
proof -
  let ?step = "length xs div max_messages"
  have step: "1 \<le> ?step"
    using assms by (simp add: max_messages_def Suc_le_eq div_greater_zero_iff)
  have "max_messages * ?step \<le> length xs"
    by simp
  then have enough: "max_messages \<le> length (slice_step ?step xs)"
    using step by (intro length_slice_step_ge) simp_all
  have eq: "limit_message_texts xs = Inr (take max_messages (slice_step ?step xs))"
    using assms step by (simp add: limit_message_texts_def py_slice_step_def)
  have one: "?step = 1" if "length xs < 400"
  proof -
    have "?step < 2"
      using that by (simp add: max_messages_def less_mult_imp_div_less)
    with step show ?thesis by simp
  qed
  show ?thesis
    using step enough eq one by (auto simp: max_messages_def slice_step_one)
qed

theorem limit_message_texts_exactly_cap_witness:
  "max_messages < length texts450 \<and>
   1 \<le> length texts450 div max_messages \<and>
   200 \<le> length (slice_step (length texts450 div max_messages) texts450) \<and>
   (\<exists>ys. limit_message_texts texts450 = Inr ys \<and> length ys = 200) \<and>
   max_messages < length (take 300 texts450) \<and>
   length (take 300 texts450) < 400 \<and>
   limit_message_texts (take 300 texts450) = Inr (take 200 (take 300 texts450))"
  using limit_message_texts_exactly_cap [of texts450]
    limit_message_texts_exactly_cap [of "take 300 texts450"]
  by (simp add: texts450_def max_messages_def)

section \<open>Properties of the storage layer\<close>

subsection \<open>The schema constraints are an invariant\<close>

lemma schema_ok_empty: "schema_ok empty_db"
  by (simp add: schema_ok_def empty_db_def)

lemma map_key_update:
  "(\<And>x. f (g x) = f x) \<Longrightarrow> map f (map (\<lambda>x. if P x then g x else x) xs) = map f xs"
  by (induction xs) simp_all

lemma list_all_map_update:
  "list_all Q xs \<Longrightarrow> (\<And>x. Q x \<Longrightarrow> Q (g x)) \<Longrightarrow> list_all Q (map (\<lambda>x. if P x then g x else x) xs)"
  by (induction xs) simp_all

lemma schema_ok_upsert_source:
  assumes "schema_ok db"
  shows "schema_ok (upsert_source db now identifier ty title username)"
proof (cases "list_ex (\<lambda>r. src_identifier r = identifier) (sources db)")
  case True
  have ids: "map src_id (map (\<lambda>r. if src_identifier r = identifier
                       then r\<lparr>src_title := coalesce title (src_title r),
                              src_username := coalesce username (src_username r),
                              src_last_updated := Some now\<rparr>
                       else r) (sources db)) = map src_id (sources db)"
    by (rule map_key_update) simp
  have idents: "map src_identifier (map (\<lambda>r. if src_identifier r = identifier
                       then r\<lparr>src_title := coalesce title (src_title r),
                              src_username := coalesce username (src_username r),
                              src_last_updated := Some now\<rparr>
                       else r) (sources db)) = map src_identifier (sources db)"
    by (rule map_key_update) simp
  have "list_all (\<lambda>r. src_id r \<le> seq_sources db + 1) (sources db)"
    using assms by (auto simp: schema_ok_def list_all_iff)
  then have "list_all (\<lambda>r. src_id r \<le> seq_sources db + 1) (map (\<lambda>r. if src_identifier r = identifier
                       then r\<lparr>src_title := coalesce title (src_title r),
                              src_username := coalesce username (src_username r),
                              src_last_updated := Some now\<rparr>
                       else r) (sources db))"
    by (rule list_all_map_update) simp_all
  then show ?thesis
    using assms True ids idents
    by (simp add: schema_ok_def upsert_source_def del: map_map)
next
  case False
  then have "identifier \<notin> src_identifier ` set (sources db)"
    by (auto simp: list_ex_iff)
  moreover have "seq_sources db + 1 \<notin> src_id ` set (sources db)"
    using assms by (auto simp: schema_ok_def list_all_iff)
  moreover have "list_all (\<lambda>r. src_id r \<le> seq_sources db + 1) (sources db)"
    using assms by (auto simp: schema_ok_def list_all_iff)
  ultimately show ?thesis
    using assms False by (simp add: schema_ok_def upsert_source_def)
qed

lemma schema_ok_add_source:
  "schema_ok db \<Longrightarrow> schema_ok (fst (add_source db now identifier ty title username))"
  by (simp add: add_source_def Let_def schema_ok_upsert_source)

lemma schema_ok_insert_message:
  assumes "schema_ok db"
    and "insert_message db now source_id mid date tx ln si sn = Inr db'"
  shows "schema_ok db'"
proof -
  have range: "bindable source_id \<and> sqlite_int mid \<and> bindable si"
    using assms(2) by (auto simp: insert_message_def split: if_splits)
  obtain sid where sid: "source_id = Some sid"
    using assms(2) by (cases source_id) (simp_all add: insert_message_def split: if_splits)
  have fresh: "\<not> list_ex (\<lambda>m. msg_source_id m = sid \<and> msg_message_id m = mid) (messages db)"
    using assms(2) sid by (auto simp: insert_message_def split: if_splits)
  then have "(sid, mid) \<notin> (\<lambda>m. (msg_source_id m, msg_message_id m)) ` set (messages db)"
    by (auto simp: list_ex_iff)
  moreover have "seq_messages db + 1 \<notin> msg_id ` set (messages db)"
    using assms(1) by (auto simp: schema_ok_def list_all_iff)
  moreover have "list_all (\<lambda>r. msg_id r \<le> seq_messages db + 1) (messages db)"
    using assms(1) by (auto simp: schema_ok_def list_all_iff)
  moreover have "db' = db\<lparr>messages := messages db @
                      [\<lparr>msg_id = seq_messages db + 1, msg_source_id = sid,
                        msg_message_id = mid, msg_date = date, msg_text = tx,
                        msg_link = ln, msg_sender_id = si,
                        msg_sender_name = sn, msg_created_at = now\<rparr>],
                    seq_messages := seq_messages db + 1,
                    last_insert_rowid := seq_messages db + 1\<rparr>"
    using assms(2) fresh sid range by (simp add: insert_message_def)
  ultimately show ?thesis
    using assms(1) by (simp add: schema_ok_def)
qed

text \<open>
  \<open>add_message\<close> returns for integer arguments that SQLite can hold, and raises
  \<open>OverflowError\<close> otherwise.
\<close>

lemma add_message_in_range:
  assumes "bindable source_id" and "sqlite_int mid" and "bindable si"
  shows "\<exists>db' is_new. add_message db now source_id mid date tx ln si sn = Inr (db', is_new)"
  using assms by (cases source_id) (auto simp: add_message_def insert_message_def)

lemma add_message_out_of_range:
  assumes "\<not> (bindable source_id \<and> sqlite_int mid \<and> bindable si)"
  shows "add_message db now source_id mid date tx ln si sn = Inl OverflowError"
  using assms by (simp add: add_message_def insert_message_def)

lemma schema_ok_add_message:
  assumes "schema_ok db"
    and "add_message db now source_id mid date tx ln si sn = Inr (db', is_new)"
  shows "schema_ok db'"
proof (cases "insert_message db now source_id mid date tx ln si sn")
  case (Inl e)
  with assms show ?thesis
    by (cases e) (simp_all add: add_message_def)
next
  case (Inr db1)
  with assms show ?thesis
    by (auto simp: add_message_def dest: schema_ok_insert_message)
qed

lemma schema_ok_save_report:
  assumes "schema_ok db"
  shows "schema_ok (fst (save_report db now date content))"
proof (cases "list_ex (\<lambda>r. rep_date r = date) (reports db)")
  case True
  have ids: "map rep_id (map (\<lambda>r. if rep_date r = date then r\<lparr>rep_content := content\<rparr> else r)
                    (reports db)) = map rep_id (reports db)"
    by (rule map_key_update) simp
  have dates: "map rep_date (map (\<lambda>r. if rep_date r = date then r\<lparr>rep_content := content\<rparr> else r)
                    (reports db)) = map rep_date (reports db)"
    by (rule map_key_update) simp
  have "list_all (\<lambda>r. rep_id r \<le> seq_reports db + 1) (reports db)"
    using assms by (auto simp: schema_ok_def list_all_iff)
  then have "list_all (\<lambda>r. rep_id r \<le> seq_reports db + 1)
      (map (\<lambda>r. if rep_date r = date then r\<lparr>rep_content := content\<rparr> else r) (reports db))"
    by (rule list_all_map_update) simp_all
  then show ?thesis
    using assms True ids dates
    by (simp add: schema_ok_def save_report_def Let_def del: map_map)
next
  case False
  then have "date \<notin> rep_date ` set (reports db)"
    by (auto simp: list_ex_iff)
  moreover have "seq_reports db + 1 \<notin> rep_id ` set (reports db)"
    using assms by (auto simp: schema_ok_def list_all_iff)
  moreover have "list_all (\<lambda>r. rep_id r \<le> seq_reports db + 1) (reports db)"
    using assms by (auto simp: schema_ok_def list_all_iff)
  ultimately show ?thesis
    using assms False by (simp add: schema_ok_def save_report_def Let_def)
qed

lemma schema_ok_mark_report_sent:
  assumes "schema_ok db"
  shows "schema_ok (mark_report_sent db now report_id)"
proof -
  have ids: "map rep_id (map (\<lambda>r. if rep_id r = report_id then r\<lparr>rep_sent_at := Some now\<rparr> else r)
              (reports db)) = map rep_id (reports db)"
    by (rule map_key_update) simp
  have dates: "map rep_date (map (\<lambda>r. if rep_id r = report_id then r\<lparr>rep_sent_at := Some now\<rparr> else r)
              (reports db)) = map rep_date (reports db)"
    by (rule map_key_update) simp
  have "list_all (\<lambda>r. rep_id r \<le> seq_reports db) (reports db)"
    using assms by (simp add: schema_ok_def)
  then have "list_all (\<lambda>r. rep_id r \<le> seq_reports db)
      (map (\<lambda>r. if rep_id r = report_id then r\<lparr>rep_sent_at := Some now\<rparr> else r) (reports db))"
    by (rule list_all_map_update) simp_all
  then show ?thesis
    using assms ids dates
    by (simp add: schema_ok_def mark_report_sent_def del: map_map)
qed


subsection \<open>Stored messages keep their sources\<close>

text \<open>
  No operation removes a source, \<open>add_source\<close> returns the key of a stored source, and
  the collector inserts messages under that key: a run of the collector on a database
  that satisfies the schema and is \<open>sourced\<close> leaves one that is.
\<close>

lemma source_key_iff: "source_key db k \<longleftrightarrow> k \<in> src_id ` set (sources db)"
  by (auto simp: source_key_def list_ex_iff)

lemma sourced_iff:
  "sourced db \<longleftrightarrow> (\<forall>m \<in> set (messages db). msg_source_id m \<in> src_id ` set (sources db))"
  by (force simp: sourced_def has_source_def list_all_iff list_ex_iff image_iff)

lemma sourced_empty: "sourced empty_db"
  by (simp add: sourced_iff empty_db_def)

lemma src_ids_upsert_source:
  "src_id ` set (sources db) \<subseteq> src_id ` set (sources (upsert_source db now ident ty title username))"
proof (cases "list_ex (\<lambda>r. src_identifier r = ident) (sources db)")
  case True
  have "map src_id (map (\<lambda>r. if src_identifier r = ident
                       then r\<lparr>src_title := coalesce title (src_title r),
                              src_username := coalesce username (src_username r),
                              src_last_updated := Some now\<rparr>
                       else r) (sources db)) = map src_id (sources db)"
    by (rule map_key_update) simp
  then have "map src_id (sources (upsert_source db now ident ty title username)) =
      map src_id (sources db)"
    using True by (simp add: upsert_source_def del: map_map)
  then have "set (map src_id (sources (upsert_source db now ident ty title username))) =
      set (map src_id (sources db))"
    by (rule arg_cong)
  then show ?thesis
    by (simp only: set_map)
next
  case False
  then show ?thesis
    by (auto simp: upsert_source_def)
qed

lemma messages_upsert_source:
  "messages (upsert_source db now ident ty title username) = messages db"
  by (simp add: upsert_source_def)

lemma source_key_upsert_source:
  assumes "source_key db k"
  shows "source_key (upsert_source db now ident ty title username) k"
  using assms src_ids_upsert_source [of db now ident ty title username]
  by (auto simp: source_key_iff)

lemma sourced_upsert_source:
  assumes "sourced db"
  shows "sourced (upsert_source db now ident ty title username)"
  using assms src_ids_upsert_source [of db now ident ty title username]
  by (auto simp: sourced_iff messages_upsert_source)

lemma upsert_source_stores_identifier:
  "ident \<in> src_identifier ` set (sources (upsert_source db now ident ty title username))"
proof (cases "list_ex (\<lambda>r. src_identifier r = ident) (sources db)")
  case True
  have "map src_identifier (map (\<lambda>r. if src_identifier r = ident
                       then r\<lparr>src_title := coalesce title (src_title r),
                              src_username := coalesce username (src_username r),
                              src_last_updated := Some now\<rparr>
                       else r) (sources db)) = map src_identifier (sources db)"
    by (rule map_key_update) simp
  then have "map src_identifier (sources (upsert_source db now ident ty title username)) =
      map src_identifier (sources db)"
    using True by (simp add: upsert_source_def del: map_map)
  then have "set (map src_identifier (sources (upsert_source db now ident ty title username))) =
      set (map src_identifier (sources db))"
    by (rule arg_cong)
  moreover have "ident \<in> set (map src_identifier (sources db))"
    using True by (auto simp: list_ex_iff)
  ultimately show ?thesis
    by (simp only: set_map)
next
  case False
  then show ?thesis
    by (simp add: upsert_source_def)
qed

lemma add_source_returns_stored_key:
  assumes "add_source db now ident ty title username = (db', key)"
  shows "\<exists>sid. key = Some sid \<and> source_key db' sid"
proof -
  have db': "db' = upsert_source db now ident ty title username"
    using assms by (simp add: add_source_def Let_def)
  have "\<exists>r \<in> set (sources db'). src_identifier r = ident"
    using upsert_source_stores_identifier [of ident db now ty title username]
    by (auto simp: db')
  then obtain r where r: "find (\<lambda>r. src_identifier r = ident) (sources db') = Some r"
    by (cases "find (\<lambda>r. src_identifier r = ident) (sources db')")
      (auto simp: find_None_iff)
  then have "r \<in> set (sources db')"
    by (auto simp: find_Some_iff)
  then have "source_key db' (src_id r)"
    by (auto simp: source_key_iff)
  moreover have "key = Some (src_id r)"
    using assms r by (simp add: add_source_def Let_def get_source_by_identifier_def db')
  ultimately show ?thesis by blast
qed

lemma add_message_keeps_sources:
  assumes "add_message db now source_id mid date tx ln si sn = Inr (db', is_new)"
  shows "sources db' = sources db"
  using assms
  by (auto simp: add_message_def insert_message_def split: sum.splits py_error.splits
      option.splits if_splits)

lemma sourced_add_message:
  assumes src: "sourced db"
    and key: "\<And>sid. source_id = Some sid \<Longrightarrow> source_key db sid"
    and add: "add_message db now source_id mid date tx ln si sn = Inr (db', is_new)"
  shows "sourced db'"
proof (cases "insert_message db now source_id mid date tx ln si sn")
  case (Inl e)
  with add have "db' = db"
    by (cases e) (simp_all add: add_message_def)
  with src show ?thesis by simp
next
  case (Inr db1)
  then obtain sid where sid: "source_id = Some sid"
    by (cases source_id) (simp_all add: insert_message_def split: if_splits)
  have "db' = db1"
    using add Inr by (simp add: add_message_def)
  moreover have "sources db1 = sources db"
    and "set (messages db1) \<subseteq> set (messages db) \<union> {m. msg_source_id m = sid}"
    using Inr sid by (auto simp: insert_message_def split: if_splits)
  ultimately show ?thesis
    using src key [OF sid] by (auto simp: sourced_iff source_key_iff)
qed

lemma store_messages_invariant:
  assumes "schema_ok db" and "sourced db"
    and "\<And>sid. source_id = Some sid \<Longrightarrow> source_key db sid"
  shows "schema_ok (fst (store_messages db now source_id msgs new_count)) \<and>
         sourced (fst (store_messages db now source_id msgs new_count))"
  using assms
proof (induction msgs arbitrary: db new_count)
  case Nil
  then show ?case by simp
next
  case (Cons msg rest)
  show ?case
  proof (cases "add_message db now source_id (fm_message_id msg) (fm_date msg)
             (Some (fm_text msg)) (Some (fm_link msg)) (fm_sender_id msg) (fm_sender_name msg)")
    case (Inl e)
    with Cons.prems show ?thesis by simp
  next
    case (Inr res)
    obtain db' is_new where res: "res = (db', is_new)"
      by (cases res)
    have "schema_ok db'"
      using schema_ok_add_message [OF Cons.prems(1)] Inr res by blast
    moreover have "sourced db'"
      using sourced_add_message [OF Cons.prems(2)] Cons.prems(3) Inr res by blast
    moreover have "source_key db' sid" if "source_id = Some sid" for sid
      using Cons.prems(3) [OF that] add_message_keeps_sources [of db now source_id] Inr res
      by (simp add: source_key_def)
    ultimately show ?thesis
      using Cons.IH [of db'] Inr res by simp
  qed
qed

lemma collect_from_source_invariant:
  assumes "schema_ok db" and "sourced db"
  shows "schema_ok (fst (collect_from_source tg db now ident ty start_date end_date)) \<and>
         sourced (fst (collect_from_source tg db now ident ty start_date end_date))"
proof (cases "get_entity_info tg ident")
  case (Inl e)
  with assms show ?thesis by (simp add: collect_from_source_def)
next
  case (Inr entity)
  obtain db1 key where add: "add_source db now ident ty (ei_title entity) (ei_username entity) = (db1, key)"
    by (cases "add_source db now ident ty (ei_title entity) (ei_username entity)")
  have ok1: "schema_ok db1"
    using schema_ok_add_source [OF assms(1), of now ident ty "ei_title entity" "ei_username entity"] add
    by simp
  have src1: "sourced db1"
    using sourced_upsert_source [OF assms(2)] add by (auto simp: add_source_def Let_def)
  have key: "source_key db1 sid" if "key = Some sid" for sid
    using add_source_returns_stored_key [OF add] that by auto
  show ?thesis
  proof (cases "get_messages tg ident start_date end_date")
    case (Inl e)
    with Inr add ok1 src1 show ?thesis by (simp add: collect_from_source_def)
  next
    case msgs: (Inr msgs)
    have "schema_ok (fst (store_messages db1 now key msgs 0)) \<and>
          sourced (fst (store_messages db1 now key msgs 0))"
      using ok1 src1 key by (rule store_messages_invariant)
    then show ?thesis
      using Inr add msgs
      by (auto simp: collect_from_source_def split: prod.splits sum.splits)
  qed
qed

lemma collect_loop_invariant:
  assumes "schema_ok db" and "sourced db"
  shows "schema_ok (fst (collect_loop tg db now srcs start_date end_date total_count total_new failed)) \<and>
         sourced (fst (collect_loop tg db now srcs start_date end_date total_count total_new failed))"
  using assms
proof (induction srcs arbitrary: db total_count total_new failed)
  case Nil
  then show ?case by simp
next
  case (Cons src srcs)
  obtain ident ty where src: "src = (ident, ty)"
    by (cases src)
  obtain db' res where step: "collect_from_source tg db now ident ty start_date end_date = (db', res)"
    by (cases "collect_from_source tg db now ident ty start_date end_date")
  have "schema_ok db' \<and> sourced db'"
    using collect_from_source_invariant [OF Cons.prems, of tg now ident ty start_date end_date] step
    by simp
  then show ?case
    using Cons.IH [of db'] step by (auto simp: src split: sum.splits prod.splits)
qed

lemma collect_from_all_sources_invariant:
  assumes "schema_ok db" and "sourced db"
  shows "schema_ok (fst (collect_from_all_sources tg db now srcs start_date end_date)) \<and>
         sourced (fst (collect_from_all_sources tg db now srcs start_date end_date))"
proof -
  have "fst (collect_from_all_sources tg db now srcs start_date end_date) =
        fst (collect_loop tg db now srcs start_date end_date 0 0 [])"
    by (simp add: collect_from_all_sources_def split: prod.splits)
  then show ?thesis
    using collect_loop_invariant [OF assms, of tg now srcs start_date end_date 0 0 "[]"]
    by simp
qed

lemma sourced_save_report: "sourced db \<Longrightarrow> sourced (fst (save_report db now date content))"
  by (simp add: sourced_iff save_report_def Let_def)

lemma sourced_mark_report_sent: "sourced db \<Longrightarrow> sourced (mark_report_sent db now report_id)"
  by (simp add: sourced_iff mark_report_sent_def)

subsection \<open>The window query\<close>


lemma map_wr_message_join_source:
  "map wr_message (join_source srcs m) = replicate (length (filter (\<lambda>s. msg_source_id m = src_id s) srcs)) m"
  by (simp add: join_source_def comp_def map_replicate_const)

lemma length_filter_key:
  "distinct (map f xs) \<Longrightarrow> length (filter (\<lambda>x. k = f x) xs) = (if list_ex (\<lambda>x. f x = k) xs then 1 else 0)"
  by (induction xs) (force simp: list_ex_iff image_iff)+

lemma map_insort_key_comp:
  "map g (insort_key (\<lambda>x. f (g x)) x xs) = insort_key f (g x) (map g xs)"
  by (induction xs) simp_all

lemma map_sort_key_comp:
  "map g (sort_key (\<lambda>x. f (g x)) xs) = sort_key f (map g xs)"
  by (induction xs) (simp_all add: map_insort_key_comp)

lemma map_wr_message_joined:
  assumes "distinct (map src_id srcs)"
  shows "map wr_message (concat (map (join_source srcs) ms)) =
         filter (\<lambda>m. list_ex (\<lambda>s. src_id s = msg_source_id m) srcs) ms"
  using assms by (induction ms) (simp_all add: map_wr_message_join_source length_filter_key)

lemma length_sort_filter_window:
  "length (filter P (sort_key f xs)) = length (filter P xs)"
  by (simp add: filter_sort)




lemma news_db_eq: "news_db = \<lparr>sources = [\<lparr>src_id = 1, src_identifier = lit ''@news'',
               src_type = lit ''channel'', src_title = Some (lit ''News''), src_username = Some (lit ''news''),
               src_last_updated = Some 0, src_created_at = 0\<rparr>], messages = [], reports = [],
     seq_sources = 1, seq_messages = 0, seq_reports = 0, last_insert_rowid = 1\<rparr>"
  by (simp add: news_db_def add_source_def upsert_source_def empty_db_def Let_def)

subsection \<open>Idempotent insertion\<close>




subsection \<open>Half-open, ordered windows\<close>

lemma midnight_in_day:
  assumes "k * day \<le> t" and "t < (k + 1) * day"
  shows "midnight t = k * day"
proof -
  have "0 \<le> t - k * day" and "t - k * day < day"
    using assms by (simp_all add: algebra_simps)
  then have "(t - k * day) mod day = t - k * day"
    by simp
  moreover have "(t - k * day) mod day = t mod day"
    using mod_mult_self1 [of "t - k * day" k day] by simp
  ultimately show ?thesis
    by (simp add: midnight_def)
qed

lemma yesterday_window_day:
  assumes "(n + 1) * day \<le> now" and "now < (n + 2) * day"
  shows "yesterday_window now = (n * day, (n + 1) * day)"
proof -
  have "midnight now = (n + 1) * day"
    using assms midnight_in_day [of "n + 1" now] by (simp add: algebra_simps)
  then show ?thesis
    by (simp add: yesterday_window_def Let_def algebra_simps)
qed

lemma boundary_db_query:
  "map (\<lambda>r. msg_date (wr_message r))
     (get_messages_by_date_range (boundary_db n) (n * day) ((n + 1) * day) None) =
   [n * day, n * day + half_day]"
  by (simp add: boundary_db_def boundary_messages_def news_db_eq add_message_def
      insert_message_def sqlite_int_def bindable_def get_messages_by_date_range_def
      join_source_def day_def half_day_def one_second_def algebra_simps)

lemma boundary_db_eq:
  "boundary_db n = news_db\<lparr>messages :=
      map (\<lambda>(k, d). \<lparr>msg_id = k, msg_source_id = 1, msg_message_id = k, msg_date = d,
             msg_text = Some [], msg_link = Some [], msg_sender_id = None,
             msg_sender_name = None, msg_created_at = 0\<rparr>)
        [(1, n * day - one_second), (2, n * day), (3, n * day + half_day), (4, (n + 1) * day)],
      seq_messages := 4, last_insert_rowid := 4\<rparr>"
  by (simp add: boundary_db_def boundary_messages_def news_db_eq add_message_def
      insert_message_def sqlite_int_def bindable_def)

lemma filter_sourced:
  assumes "sourced db"
  shows "filter (\<lambda>m. P m \<and> has_source db m) (messages db) = filter P (messages db)"
  using assms by (intro filter_cong) (auto simp: sourced_def list_all_iff)

text \<open>
  C2: on a database that satisfies the schema, the window query returns, in ascending
  order of date, exactly the stored messages with \<open>start \<le> date < end\<close>. With the four
  boundary instants of day \<open>n\<close> stored, the window that \<open>collect_yesterday\<close> computes at
  any instant of day \<open>n + 1\<close> selects 00:00:00 and 12:00:00 of day \<open>n\<close> and nothing
  else.
\<close>

theorem window_query_half_open_ordered:
  "(schema_ok db \<and> sourced db \<longrightarrow>
      map wr_message (get_messages_by_date_range db start_date end_date None) =
        sort_key msg_date
          (filter (\<lambda>m. start_date \<le> msg_date m \<and> msg_date m < end_date) (messages db))) \<and>
   sorted (map (\<lambda>r. msg_date (wr_message r))
     (get_messages_by_date_range db start_date end_date src_filter)) \<and>
   ((n + 1) * day \<le> now \<and> now < (n + 2) * day \<longrightarrow>
      (case yesterday_window now of
         (yesterday_start, yesterday_end) \<Rightarrow>
           map (\<lambda>r. msg_date (wr_message r))
             (get_messages_by_date_range (boundary_db n) yesterday_start yesterday_end None) =
           [n * day, n * day + half_day]))"
proof (intro conjI impI)
  assume inv: "schema_ok db \<and> sourced db"
  then have d: "distinct (map src_id (sources db))"
    by (simp add: schema_ok_def)
  have "map wr_message (get_messages_by_date_range db start_date end_date None) =
           sort_key msg_date
             (filter (\<lambda>m. (start_date \<le> msg_date m \<and> msg_date m < end_date) \<and> has_source db m)
                (messages db))"
    unfolding get_messages_by_date_range_def has_source_def
    by (simp add: map_sort_key_comp map_wr_message_joined [OF d] conj_commute conj_left_commute
        cong: conj_cong)
  also have "\<dots> = sort_key msg_date
      (filter (\<lambda>m. start_date \<le> msg_date m \<and> msg_date m < end_date) (messages db))"
    using inv by (simp only: filter_sourced)
  finally show "map wr_message (get_messages_by_date_range db start_date end_date None) =
           sort_key msg_date
             (filter (\<lambda>m. start_date \<le> msg_date m \<and> msg_date m < end_date) (messages db))" .
next
  show "sorted (map (\<lambda>r. msg_date (wr_message r))
     (get_messages_by_date_range db start_date end_date src_filter))"
    unfolding get_messages_by_date_range_def by simp
next
  assume "(n + 1) * day \<le> now \<and> now < (n + 2) * day"
  then have "yesterday_window now = (n * day, (n + 1) * day)"
    by (simp add: yesterday_window_day)
  then show "case yesterday_window now of
         (yesterday_start, yesterday_end) \<Rightarrow>
           map (\<lambda>r. msg_date (wr_message r))
             (get_messages_by_date_range (boundary_db n) yesterday_start yesterday_end None) =
           [n * day, n * day + half_day]"
    by (simp add: boundary_db_query)
qed

theorem window_query_half_open_ordered_witness:
  "schema_ok (boundary_db 3) \<and> sourced (boundary_db 3) \<and>
   map wr_message (get_messages_by_date_range (boundary_db 3) (3 * day) (4 * day) None) =
     sort_key msg_date
       (filter (\<lambda>m. 3 * day \<le> msg_date m \<and> msg_date m < 4 * day) (messages (boundary_db 3))) \<and>
   (3 + 1) * day \<le> 4 * day + 5 \<and> 4 * day + 5 < (3 + 2) * day \<and>
   (case yesterday_window (4 * day + 5) of
      (yesterday_start, yesterday_end) \<Rightarrow>
        map (\<lambda>r. msg_date (wr_message r))
          (get_messages_by_date_range (boundary_db 3) yesterday_start yesterday_end None) =
        [3 * day, 3 * day + half_day])"
proof -
  have ok: "schema_ok (boundary_db 3)"
    by (simp add: boundary_db_eq news_db_eq schema_ok_def)
  have src: "sourced (boundary_db 3)"
    by (simp add: boundary_db_eq news_db_eq sourced_def has_source_def)
  have now: "(3 + 1) * day \<le> 4 * day + 5 \<and> 4 * day + 5 < (3 + 2) * day"
    by (simp add: day_def)
  show ?thesis
    using window_query_half_open_ordered
      [of "boundary_db 3" "3 * day" "4 * day" None 3 "4 * day + 5"] ok src now
    by simp
qed

subsection \<open>Report upsert\<close>

lemma find_map_update:
  assumes "find P xs = Some r" and "\<And>x. P (g x) = P x"
  shows "find P (map (\<lambda>x. if P x then g x else x) xs) = Some (g r)"
  using assms by (induction xs) (auto split: if_splits)

lemma filter_map_update_other:
  assumes "\<And>x. Q (g x) = Q x"
  shows "filter (\<lambda>x. \<not> Q x) (map (\<lambda>x. if Q x then g x else x) xs) = filter (\<lambda>x. \<not> Q x) xs"
  using assms by (induction xs) simp_all

lemma length_filter_map_update:
  assumes "\<And>x. Q (g x) = Q x"
  shows "length (filter Q (map (\<lambda>x. if P x then g x else x) xs)) = length (filter Q xs)"
  using assms by (induction xs) simp_all

lemma find_Some_list_ex: "find P xs = Some r \<Longrightarrow> list_ex P xs"
  by (auto simp: find_Some_iff list_ex_iff)

lemma save_report_existing:
  assumes "get_report_by_date db date = Some r"
  shows "save_report db now date content =
     (db\<lparr>reports := map (\<lambda>r. if rep_date r = date then r\<lparr>rep_content := content\<rparr> else r)
                    (reports db),
         seq_reports := seq_reports db + 1\<rparr>, last_insert_rowid db)"
  using find_Some_list_ex [OF assms [unfolded get_report_by_date_def]]
  by (simp add: save_report_def Let_def)

text \<open>
  C4: when a report row for the date exists, \<open>save_report\<close> overwrites its content and
  nothing else of it (the key and \<open>sent_at\<close> stay), exactly one row for the date exists
  afterwards and \<open>get_report_by_date\<close> returns it, and the other rows are untouched.
\<close>

theorem save_report_upsert:
  assumes ok: "schema_ok db"
    and row: "get_report_by_date db date = Some r"
  shows "case save_report db now date content of
           (db', report_id) \<Rightarrow>
             get_report_by_date db' date = Some (r\<lparr>rep_content := content\<rparr>) \<and>
             rep_sent_at (r\<lparr>rep_content := content\<rparr>) = rep_sent_at r \<and>
             rep_id (r\<lparr>rep_content := content\<rparr>) = rep_id r \<and>
             length (filter (\<lambda>x. rep_date x = date) (reports db')) = 1 \<and>
             length (reports db') = length (reports db) \<and>
             filter (\<lambda>x. \<not> rep_date x = date) (reports db') =
               filter (\<lambda>x. \<not> rep_date x = date) (reports db)"
proof -
  let ?upd = "map (\<lambda>r. if rep_date r = date then r\<lparr>rep_content := content\<rparr> else r) (reports db)"
  have "find (\<lambda>r. rep_date r = date) ?upd = Some (r\<lparr>rep_content := content\<rparr>)"
    using row unfolding get_report_by_date_def by (rule find_map_update) simp
  moreover have "length (filter (\<lambda>x. rep_date x = date) ?upd) =
      length (filter (\<lambda>x. rep_date x = date) (reports db))"
    by (rule length_filter_map_update) simp
  moreover have "length (filter (\<lambda>x. date = rep_date x) (reports db)) = 1"
    using ok find_Some_list_ex [OF row [unfolded get_report_by_date_def]]
    by (simp add: length_filter_key schema_ok_def)
  then have "length (filter (\<lambda>x. rep_date x = date) (reports db)) = 1"
    by (simp add: eq_commute)
  moreover have "filter (\<lambda>x. \<not> rep_date x = date) ?upd = filter (\<lambda>x. \<not> rep_date x = date) (reports db)"
    by (rule filter_map_update_other) simp
  ultimately show ?thesis
    by (simp add: save_report_existing [OF row] get_report_by_date_def)
qed

lemma sent_report_db_eq:
  "sent_report_db = news_db\<lparr>reports :=
      [\<lparr>rep_id = 1, rep_date = report_day, rep_content = lit ''first'',
        rep_sent_at = Some 7, rep_created_at = 0\<rparr>],
      seq_reports := 1, last_insert_rowid := 1\<rparr>"
  by (simp add: sent_report_db_def save_report_def mark_report_sent_def news_db_eq Let_def)

theorem save_report_upsert_witness:
  "schema_ok sent_report_db \<and>
   get_report_by_date sent_report_db report_day =
     Some \<lparr>rep_id = 1, rep_date = report_day, rep_content = lit ''first'',
            rep_sent_at = Some 7, rep_created_at = 0\<rparr> \<and>
   (case save_report sent_report_db 9 report_day (lit ''second'') of
      (db', report_id) \<Rightarrow>
        get_report_by_date db' report_day =
          Some \<lparr>rep_id = 1, rep_date = report_day, rep_content = lit ''second'',
                 rep_sent_at = Some 7, rep_created_at = 0\<rparr> \<and>
        length (filter (\<lambda>x. rep_date x = report_day) (reports db')) = 1 \<and>
        length (reports db') = length (reports sent_report_db))"
proof -
  have ok: "schema_ok sent_report_db"
    by (simp add: sent_report_db_eq news_db_eq schema_ok_def)
  have row: "get_report_by_date sent_report_db report_day =
     Some \<lparr>rep_id = 1, rep_date = report_day, rep_content = lit ''first'',
            rep_sent_at = Some 7, rep_created_at = 0\<rparr>"
    by (simp add: sent_report_db_eq get_report_by_date_def)
  show ?thesis
    using save_report_upsert [OF ok row, where now = 9 and content = "lit ''second''"] ok row
    by (simp split: prod.splits)
qed

subsection \<open>The key returned by \<open>save_report\<close>\<close>

lemma rerun_db_eq:
  "rerun_db = news_db\<lparr>messages := messages (boundary_db 1),
      reports := [\<lparr>rep_id = 1, rep_date = report_day, rep_content = lit ''first'',
                   rep_sent_at = None, rep_created_at = 0\<rparr>],
      seq_messages := 4, seq_reports := 1, last_insert_rowid := 4\<rparr>"
  by (simp add: rerun_db_def boundary_db_eq boundary_messages_def save_report_def news_db_eq
      add_message_def insert_message_def sqlite_int_def bindable_def Let_def)

lemma save_report_update_returns_last_insert:
  assumes "get_report_by_date db date = Some r"
  shows "snd (save_report db now date content) = last_insert_rowid db"
  by (simp add: save_report_existing [OF assms])

text \<open>
  C10: there is a state, reached by inserting messages after the report of a date was
  saved, in which \<open>save_report\<close> for that date takes the update branch and returns a key
  that is not the key of the date's row; \<open>mark_report_sent\<close> with the returned key then
  leaves that row, and so its \<open>sent_at\<close>, as it was.
\<close>

theorem save_report_returned_id_mismatch:
  "\<exists>db date r. schema_ok db \<and> get_report_by_date db date = Some r \<and>
     (\<forall>now content now'.
        case save_report db now date content of
          (db', report_id) \<Rightarrow>
            report_id \<noteq> rep_id r \<and>
            get_report_by_date db' date = Some (r\<lparr>rep_content := content\<rparr>) \<and>
            get_report_by_date (mark_report_sent db' now' report_id) date =
              Some (r\<lparr>rep_content := content\<rparr>))"
proof -
  let ?r = "\<lparr>rep_id = 1, rep_date = report_day, rep_content = lit ''first'',
             rep_sent_at = None, rep_created_at = 0\<rparr>"
  have ok: "schema_ok rerun_db"
    by (simp add: rerun_db_eq boundary_db_eq news_db_eq schema_ok_def)
  have row: "get_report_by_date rerun_db report_day = Some ?r"
    by (simp add: rerun_db_eq get_report_by_date_def)
  have main: "case save_report rerun_db now report_day content of
          (db', report_id) \<Rightarrow>
            report_id \<noteq> rep_id ?r \<and>
            get_report_by_date db' report_day = Some (?r\<lparr>rep_content := content\<rparr>) \<and>
            get_report_by_date (mark_report_sent db' now' report_id) report_day =
              Some (?r\<lparr>rep_content := content\<rparr>)" for now content now'
    by (simp add: save_report_existing [OF row])
      (simp add: rerun_db_eq get_report_by_date_def mark_report_sent_def)
  show ?thesis
    by (intro exI [of _ rerun_db] exI [of _ report_day] exI [of _ ?r] conjI allI ok row main)
qed

subsection \<open>Source metadata\<close>

lemma upsert_source_existing:
  assumes "get_source_by_identifier db identifier = Some r"
  shows "upsert_source db now identifier ty title username =
     db\<lparr>sources :=
             map (\<lambda>r. if src_identifier r = identifier
                       then r\<lparr>src_title := coalesce title (src_title r),
                              src_username := coalesce username (src_username r),
                              src_last_updated := Some now\<rparr>
                       else r) (sources db),
           seq_sources := seq_sources db + 1\<rparr>"
  using find_Some_list_ex [OF assms [unfolded get_source_by_identifier_def]]
  by (simp add: upsert_source_def)

text \<open>
  C8, as the code has it: for an identifier with a stored row, \<open>add_source\<close> returns the
  key of that row, and each of title and username keeps its stored value when the
  argument is missing (\<open>None\<close>) and takes the argument's value otherwise.
\<close>

theorem add_source_retains_missing:
  assumes row: "get_source_by_identifier db identifier = Some r"
  shows "case add_source db now identifier source_type title username of
           (db', key) \<Rightarrow>
             key = Some (src_id r) \<and>
             (\<exists>r'. get_source_by_identifier db' identifier = Some r' \<and>
                src_id r' = src_id r \<and>
                src_title r' = (case title of None \<Rightarrow> src_title r | Some t \<Rightarrow> Some t) \<and>
                src_username r' =
                  (case username of None \<Rightarrow> src_username r | Some u \<Rightarrow> Some u))"
proof -
  let ?g = "\<lambda>r. r\<lparr>src_title := coalesce title (src_title r),
                   src_username := coalesce username (src_username r),
                   src_last_updated := Some now\<rparr>"
  have "find (\<lambda>r. src_identifier r = identifier)
          (map (\<lambda>r. if src_identifier r = identifier then ?g r else r) (sources db)) = Some (?g r)"
    using row unfolding get_source_by_identifier_def by (rule find_map_update) simp
  then show ?thesis
    by (simp add: add_source_def Let_def upsert_source_existing [OF row]
        get_source_by_identifier_def coalesce_def)
qed

theorem add_source_retains_missing_witness:
  "get_source_by_identifier news_db (lit ''@news'') =
     Some \<lparr>src_id = 1, src_identifier = lit ''@news'',
               src_type = lit ''channel'', src_title = Some (lit ''News''), src_username = Some (lit ''news''),
               src_last_updated = Some 0, src_created_at = 0\<rparr> \<and>
   (case add_source news_db 1 (lit ''@news'') (lit ''channel'') None (Some (lit ''news24'')) of
      (db', key) \<Rightarrow>
        key = Some 1 \<and>
        (\<exists>r'. get_source_by_identifier db' (lit ''@news'') = Some r' \<and>
           src_id r' = 1 \<and> src_title r' = Some (lit ''News'') \<and>
           src_username r' = Some (lit ''news24'')))"
proof -
  have row: "get_source_by_identifier news_db (lit ''@news'') =
     Some \<lparr>src_id = 1, src_identifier = lit ''@news'',
               src_type = lit ''channel'', src_title = Some (lit ''News''), src_username = Some (lit ''news''),
               src_last_updated = Some 0, src_created_at = 0\<rparr>"
    by (simp add: news_db_eq get_source_by_identifier_def)
  show ?thesis
    using add_source_retains_missing [OF row, where now = 1 and source_type = "lit ''channel''"
        and title = None and username = "Some (lit ''news24'')"] row
    by (simp split: prod.splits)
qed

text \<open>
  C8 as stated fails for an empty argument: \<open>COALESCE\<close> keeps the stored value only
  for \<open>NULL\<close>, so an empty title replaces the stored non-empty one.
\<close>

theorem add_source_empty_title_counterexample:
  "map_option src_title (get_source_by_identifier news_db (lit ''@news'')) = Some (Some (lit ''News'')) \<and>
   lit ''News'' \<noteq> [] \<and>
   renamed_db = fst (add_source news_db 1 (lit ''@news'') (lit ''channel'') (Some []) None) \<and>
   map_option src_title (get_source_by_identifier renamed_db (lit ''@news'')) = Some (Some [])"
  by (simp add: renamed_db_def news_db_eq add_source_def upsert_source_def Let_def
      get_source_by_identifier_def coalesce_def lit_def)

section \<open>Properties of the collector\<close>

lemma collect_from_source_never_raises:
  "\<exists>db' counts. collect_from_source tg db now identifier source_type start_date end_date =
      (db', Inr counts)"
  by (auto simp: collect_from_source_def Let_def split: sum.splits prod.splits)

lemma collect_from_source_failed_resolution:
  "get_entity_info tg identifier = Inl e \<Longrightarrow>
   collect_from_source tg db now identifier source_type start_date end_date = (db, Inr (0, 0))"
  by (simp add: collect_from_source_def)

lemma collect_loop_failed:
  "snd (snd (snd (collect_loop tg db now srcs start_date end_date total_count total_new failed)))
     = failed"
proof (induction srcs arbitrary: db total_count total_new)
  case Nil
  show ?case by simp
next
  case (Cons src srcs)
  obtain ident source_type where src: "src = (ident, source_type)"
    by (cases src)
  obtain db' counts where
    "collect_from_source tg db now ident source_type start_date end_date = (db', Inr counts)"
    using collect_from_source_never_raises by blast
  then show ?case
    using Cons.IH by (cases counts) (simp add: src)
qed

text \<open>
  \<open>collect_from_source\<close> turns every exception into \<open>(0, 0)\<close>, so the \<open>except\<close> branch
  of \<open>collect_from_all_sources\<close> is never taken and the number of failed sources in the
  statistics is 0 whatever happens.
\<close>

lemma failed_sources_always_zero:
  "failed_sources (snd (collect_from_all_sources tg db now srcs start_date end_date)) = 0"
proof -
  obtain db' t n f where
    loop: "collect_loop tg db now srcs start_date end_date 0 0 [] = (db', t, n, f)"
    by (metis prod_cases4)
  then have "f = []"
    using collect_loop_failed [of tg db now srcs start_date end_date 0 0 "[]"] by simp
  then show ?thesis
    by (simp add: collect_from_all_sources_def loop)
qed

text \<open>
  A source whose metadata resolution raises leaves the database and the message counts
  exactly as a run without that source would.
\<close>

lemma collect_loop_skips_failed:
  assumes "get_entity_info tg ident = Inl e"
  shows "collect_loop tg db now (pre @ (ident, source_type) # post) start_date end_date
           total_count total_new failed =
         collect_loop tg db now (pre @ post) start_date end_date total_count total_new failed"
proof (induction pre arbitrary: db total_count total_new failed)
  case Nil
  show ?case
    by (simp add: collect_from_source_failed_resolution [OF assms])
next
  case (Cons src pre)
  obtain i t where src: "src = (i, t)"
    by (cases src)
  show ?case
    by (simp add: src Cons.IH split: prod.splits sum.splits)
qed

lemma collect_isolates_failed_resolution:
  assumes "get_entity_info tg ident = Inl e"
  shows "collect_from_all_sources tg db now (pre @ (ident, source_type) # post) start_date end_date =
         (case collect_from_all_sources tg db now (pre @ post) start_date end_date of
            (db', st) \<Rightarrow> (db', st\<lparr>total_sources := total_sources st + 1\<rparr>))"
  by (simp add: collect_from_all_sources_def collect_loop_skips_failed [OF assms]
      split: prod.splits)

text \<open>
  C3 asks that a source whose metadata resolution raises counts zero, is listed under the
  failed sources, and does not stop the others. In the run over three sources the first
  and the last contribute their message and the second contributes nothing, but the
  statistics report no failed source.
\<close>

theorem failed_source_not_reported:
  "get_entity_info failing_telegram (lit ''@gone'') = Inl (CollaboratorError (lit ''not found'')) \<and>
   snd (collect_from_all_sources failing_telegram empty_db 0 three_sources 0 10) =
     \<lparr>total_sources = 3, total_messages = 2, new_messages = 2, failed_sources = 0\<rparr>"
  by (simp add: failing_telegram_def three_sources_def one_message_def
      collect_from_all_sources_def collect_from_source_def add_source_def upsert_source_def
      get_source_by_identifier_def add_message_def insert_message_def sqlite_int_def
      bindable_def empty_db_def Let_def lit_def)

section \<open>Properties of message rendering\<close>

lemma str_replace_char:
  "str_replace [a] new body = concat (map (\<lambda>c. if c = a then new else [c]) body)"
  by (induction body) auto

lemma escape_html_in_order:
  "escape_html body =
     str_replace (lit ''>'') (lit ''&gt;'') (str_replace (lit ''<'') (lit ''&lt;'')
       (str_replace (lit ''&'') (lit ''&amp;'') body))"
  by (simp add: escape_html_def replacements_def)

lemma escape_html_per_char: "escape_html body = concat (map escape_char body)"
proof -
  have "escape_html body =
      str_replace [62] (lit ''&gt;'') (str_replace [60] (lit ''&lt;'')
        (str_replace [38] (lit ''&amp;'') body))"
    by (simp add: escape_html_in_order lit_def)
  also have "\<dots> = concat (map escape_char body)"
    by (induction body) (simp_all add: str_replace_char escape_char_def lit_def)
  finally show ?thesis .
qed

lemma escape_html_example:
  "escape_html (lit ''A & <b>bold</b>'') = lit ''A &amp; &lt;b&gt;bold&lt;/b&gt;''"
  by (simp add: escape_html_per_char escape_char_def lit_def)

text \<open>
  A body of 301 ampersands is cut to 300 before it is escaped: 300 entities and the
  ellipsis.
\<close>

lemma truncation_before_escaping:
  "format_message \<lparr>rm_text = Some (replicate 301 38), rm_link = None, rm_date = None\<rparr> =
     concat (replicate 300 (lit ''&amp;'')) @ lit ''...'' @ [newline, newline]"
  by (simp add: format_message_def truncate_text_def truthy_def str_of_def Let_def
      max_length_text_def escape_html_per_char escape_char_def time_prefix_def
      link_marker_def map_replicate_const lit_def)

text \<open>
  C6: the rendered message is the time prefix, then the body truncated to 300 characters
  plus \<open>...\<close> when it is longer and only then escaped, each of \<open>&\<close>, \<open><\<close>, \<open>>\<close> exactly
  once (the three replacements run in that order and none touches the output of another),
  then the link marker with the link as it is, then two newlines. The body
  \<open>A & <b>bold</b>\<close> renders as \<open>A &amp; &lt;b&gt;bold&lt;/b&gt;\<close>.
\<close>

theorem format_message_truncates_then_escapes:
  "escape_html body =
     str_replace (lit ''>'') (lit ''&gt;'') (str_replace (lit ''<'') (lit ''&lt;'')
       (str_replace (lit ''&'') (lit ''&amp;'') body)) \<and>
   escape_html body = concat (map escape_char body) \<and>
   format_message message =
     time_prefix (rm_date message) @
     concat (map escape_char
       (case rm_text message of
          None \<Rightarrow> []
        | Some body \<Rightarrow> if 300 < length body then take 300 body @ lit ''...'' else body)) @
     link_marker (rm_link message) @ [newline, newline] \<and>
   link_marker (Some (lit ''https://t.me/news/1?a=1&b=2'')) =
     lit '' <a href='' @ [34] @ lit ''https://t.me/news/1?a=1&b=2'' @ [34] @ lit ''>'' @
       arrow_glyph @ lit ''</a>'' \<and>
   escape_html (lit ''A & <b>bold</b>'') = lit ''A &amp; &lt;b&gt;bold&lt;/b&gt;'' \<and>
   format_message bold_message =
     lit ''A &amp; &lt;b&gt;bold&lt;/b&gt;'' @
     lit '' <a href='' @ [34] @ lit ''https://t.me/news/1?a=1&b=2'' @ [34] @ lit ''>'' @
       arrow_glyph @ lit ''</a>'' @ [newline, newline]"
proof (intro conjI)
  show "escape_html body =
     str_replace (lit ''>'') (lit ''&gt;'') (str_replace (lit ''<'') (lit ''&lt;'')
       (str_replace (lit ''&'') (lit ''&amp;'') body))"
    by (rule escape_html_in_order)
  show "escape_html body = concat (map escape_char body)"
    by (rule escape_html_per_char)
  show "format_message message =
     time_prefix (rm_date message) @
     concat (map escape_char
       (case rm_text message of
          None \<Rightarrow> []
        | Some body \<Rightarrow> if 300 < length body then take 300 body @ lit ''...'' else body)) @
     link_marker (rm_link message) @ [newline, newline]"
    by (cases "rm_text message")
      (auto simp: format_message_def truncate_text_def truthy_def str_of_def Let_def
        max_length_text_def escape_html_per_char lit_def)
  show "link_marker (Some (lit ''https://t.me/news/1?a=1&b=2'')) =
     lit '' <a href='' @ [34] @ lit ''https://t.me/news/1?a=1&b=2'' @ [34] @ lit ''>'' @
       arrow_glyph @ lit ''</a>''"
    by (simp add: link_marker_def truthy_def str_of_def lit_def)
  show "escape_html (lit ''A & <b>bold</b>'') = lit ''A &amp; &lt;b&gt;bold&lt;/b&gt;''"
    by (rule escape_html_example)
  show "format_message bold_message =
     lit ''A &amp; &lt;b&gt;bold&lt;/b&gt;'' @
     lit '' <a href='' @ [34] @ lit ''https://t.me/news/1?a=1&b=2'' @ [34] @ lit ''>'' @
       arrow_glyph @ lit ''</a>'' @ [newline, newline]"
    by (simp add: format_message_def bold_message_def truncate_text_def truthy_def str_of_def
        Let_def max_length_text_def escape_html_per_char escape_char_def time_prefix_def
        link_marker_def lit_def)
qed


section \<open>Properties of chunking\<close>

lemma split_on_replicate_sep:
  "a \<noteq> sep \<Longrightarrow> split_on sep (replicate n a @ sep # rest) = replicate n a # split_on sep rest"
  by (induction n) simp_all

lemma split_on_blank_line_text:
  "split_on newline blank_line_text = [replicate 4000 97, [], [98]]"
  using split_on_replicate_sep [of 97 newline 4000 "[newline, 98]"]
  by (simp add: blank_line_text_def newline_def)

text \<open>
  For a positive budget the splitting ends and no part is longer than the budget.
\<close>

lemma hard_split_bounded:
  assumes "0 < max_length" and "list_all (\<lambda>p. length p \<le> max_length) parts"
  shows "\<exists>parts' line'. hard_split max_length line parts = Some (parts', line') \<and>
           list_all (\<lambda>p. length p \<le> max_length) parts' \<and> length line' \<le> max_length"
  using assms
proof (induction "length line" arbitrary: line parts rule: less_induct)
  case less
  show ?case
  proof (cases "length line > max_length")
    case True
    have "length (drop max_length line) < length line"
      using True less.prems(1) by simp
    moreover have "list_all (\<lambda>p. length p \<le> max_length) (parts @ [take max_length line])"
      using less.prems(2) by simp
    ultimately obtain parts' line' where
      "hard_split max_length (drop max_length line) (parts @ [take max_length line]) =
         Some (parts', line')"
      "list_all (\<lambda>p. length p \<le> max_length) parts'" "length line' \<le> max_length"
      using less.hyps less.prems(1) by blast
    then show ?thesis
      using True by (subst hard_split.simps) simp
  next
    case False
    then show ?thesis
      using less.prems(2) by (subst hard_split.simps) simp
  qed
qed

lemma split_loop_bounded:
  assumes "0 < max_length" and "list_all (\<lambda>p. length p \<le> max_length) parts"
    and "length current_part \<le> max_length"
  shows "\<exists>parts' cur'. split_loop max_length lines parts current_part = Some (parts', cur') \<and>
           list_all (\<lambda>p. length p \<le> max_length) parts' \<and> length cur' \<le> max_length"
  using assms
proof (induction lines arbitrary: parts current_part)
  case Nil
  then show ?case by simp
next
  case (Cons line rest)
  let ?parts1 = "if current_part \<noteq> [] then parts @ [current_part] else parts"
  have p1: "list_all (\<lambda>p. length p \<le> max_length) ?parts1"
    using Cons.prems by simp
  show ?case
  proof (cases "length current_part + length line + 1 > max_length")
    case flush: True
    show ?thesis
    proof (cases "length line > max_length")
      case True
      obtain parts2 line' where hs: "hard_split max_length line ?parts1 = Some (parts2, line')"
        and b: "list_all (\<lambda>p. length p \<le> max_length) parts2" "length line' \<le> max_length"
        using hard_split_bounded [OF Cons.prems(1) p1] by blast
      show ?thesis
        using Cons.IH [OF Cons.prems(1) b] flush True hs by (simp add: Let_def)
    next
      case False
      then have "length line \<le> max_length" by simp
      from Cons.IH [OF Cons.prems(1) p1 this] show ?thesis
        using flush False by (simp add: Let_def)
    qed
  next
    case False
    then have "length ((if current_part \<noteq> [] then current_part @ [newline] else current_part) @ line)
        \<le> max_length"
      by simp
    from Cons.IH [OF Cons.prems(1) Cons.prems(2) this] show ?thesis
      using False by simp
  qed
qed

lemma split_message_parts_bounded:
  assumes "0 < max_length"
  shows "\<exists>parts. split_message text max_length = Some parts \<and>
           list_all (\<lambda>p. length p \<le> max_length) parts"
proof -
  obtain parts cur where
    "split_loop max_length (split_on newline text) [] [] = Some (parts, cur)"
    "list_all (\<lambda>p. length p \<le> max_length) parts" "length cur \<le> max_length"
    using split_loop_bounded [OF assms, of "[]" "[]" "split_on newline text"] by auto
  then show ?thesis
    by (simp add: split_message_def)
qed



text \<open>With a budget of 0 the inner iteration never ends on a non-empty line.\<close>

lemma hard_split_returns_nonzero:
  assumes ret: "hard_split max_length line parts = Some r"
  shows "line \<noteq> [] \<longrightarrow> 0 < max_length"
proof (rule hard_split.raw_induct
    [where P = "\<lambda>m l p r. l \<noteq> [] \<longrightarrow> 0 < m", OF _ ret])
  fix f :: "nat \<Rightarrow> pystr \<Rightarrow> pystr list \<Rightarrow> (pystr list \<times> pystr) option"
  fix m l p y
  assume IH: "\<And>l p b y. f l p b = Some y \<Longrightarrow> p \<noteq> [] \<longrightarrow> 0 < l"
    and eq: "(if m < length l then f m (drop m l) (p @ [take m l]) else Some (p, l)) = Some y"
  show "l \<noteq> [] \<longrightarrow> 0 < m"
  proof (intro impI, rule ccontr)
    assume nonempty: "l \<noteq> []" and "\<not> 0 < m"
    then have zero: "m = 0" by simp
    with nonempty eq have "f 0 l (p @ [ [] ]) = Some y" by simp
    from IH [OF this] nonempty show False by simp
  qed
qed

lemma hard_split_zero_budget:
  "line \<noteq> [] \<Longrightarrow> hard_split 0 line parts = None"
  using hard_split_returns_nonzero [of 0 line parts] by (cases "hard_split 0 line parts") auto

text \<open>
  When no line is empty and none exceeds the budget, the parts joined with newlines are
  the text.
\<close>

lemma split_on_nonempty: "split_on sep body \<noteq> []"
  by (induction body) (auto split: list.splits)

lemma join_lines_Cons_Cons: "join_lines ((c # l) # ls) = c # join_lines (l # ls)"
  by (cases ls) simp_all

lemma join_lines_split_on: "join_lines (split_on newline body) = body"
proof (induction body)
  case Nil
  show ?case by simp
next
  case (Cons c cs)
  obtain l ls where split: "split_on newline cs = l # ls"
    using split_on_nonempty [of newline cs] by (cases "split_on newline cs") auto
  with Cons show ?case
    by (simp add: join_lines_Cons_Cons)
qed

lemma join_lines_merge:
  "join_lines (ps @ (a @ newline # b) # rest) = join_lines (ps @ a # b # rest)"
proof (induction ps)
  case Nil
  show ?case by (cases rest) simp_all
next
  case (Cons p ps)
  then show ?case by (cases ps) simp_all
qed

lemma split_loop_roundtrip:
  assumes "list_all (\<lambda>l. l \<noteq> [] \<and> length l \<le> max_length) lines"
    and "current_part = [] \<longrightarrow> parts = []"
    and "split_loop max_length lines parts current_part = Some (parts', cur')"
  shows "join_lines (pending parts' cur') = join_lines (pending parts current_part @ lines)"
  using assms
proof (induction lines arbitrary: parts current_part)
  case Nil
  then show ?case by simp
next
  case (Cons line rest)
  have line: "line \<noteq> []" "length line \<le> max_length"
    and rest: "list_all (\<lambda>l. l \<noteq> [] \<and> length l \<le> max_length) rest"
    using Cons.prems(1) by simp_all
  show ?case
  proof (cases "length current_part + length line + 1 > max_length")
    case True
    then have "split_loop max_length rest (pending parts current_part) line = Some (parts', cur')"
      using Cons.prems(3) line by (simp add: pending_def Let_def)
    from Cons.IH [OF rest _ this] line show ?thesis
      by (simp add: pending_def)
  next
    case False
    let ?cur = "(if current_part \<noteq> [] then current_part @ [newline] else current_part) @ line"
    have "split_loop max_length rest parts ?cur = Some (parts', cur')"
      using Cons.prems(3) False by simp
    from Cons.IH [OF rest _ this] line
    have "join_lines (pending parts' cur') = join_lines (pending parts ?cur @ rest)"
      by simp
    also have "pending parts ?cur @ rest = parts @ ?cur # rest"
      using line by (simp add: pending_def)
    also have "join_lines (parts @ ?cur # rest) = join_lines (pending parts current_part @ line # rest)"
    proof (cases "current_part = []")
      case True
      with Cons.prems(2) show ?thesis by (simp add: pending_def)
    next
      case False
      then show ?thesis
        using join_lines_merge [of parts current_part line rest] by (simp add: pending_def)
    qed
    finally show ?thesis .
  qed
qed

lemma split_message_roundtrip:
  assumes "0 < max_length"
    and "list_all (\<lambda>l. l \<noteq> [] \<and> length l \<le> max_length) (split_on newline body)"
  shows "\<exists>parts. split_message body max_length = Some parts \<and> join_lines parts = body"
proof -
  obtain parts cur where
    loop: "split_loop max_length (split_on newline body) [] [] = Some (parts, cur)"
    using split_loop_bounded [OF assms(1), of "[]" "[]" "split_on newline body"] by auto
  have "join_lines (pending parts cur) = join_lines (pending [] [] @ split_on newline body)"
    using assms(2) _ loop by (rule split_loop_roundtrip) simp
  then have "join_lines (pending parts cur) = body"
    by (simp add: pending_def join_lines_split_on)
  then show ?thesis
    by (auto simp: split_message_def loop pending_def)
qed

text \<open>
  C5 asks that, when no line exceeds 4000 characters, the parts joined with newlines
  give the text back. A blank line that follows a part of exactly 4000 characters is
  lost: \<open>if current_part:\<close> takes the empty line held in \<open>current_part\<close> for no line
  at all, so the next line is appended without the newline.
\<close>

theorem split_message_drops_blank_line:
  "length blank_line_text = 4003 \<and>
   list_all (\<lambda>line. length line \<le> 4000) (split_on newline blank_line_text) \<and>
   split_message blank_line_text 4000 = Some [replicate 4000 97, [98]] \<and>
   join_lines [replicate 4000 97, [98]] \<noteq> blank_line_text"
proof (intro conjI)
  show "length blank_line_text = 4003"
    by (simp add: blank_line_text_def)
  show "list_all (\<lambda>line. length line \<le> 4000) (split_on newline blank_line_text)"
    by (simp add: split_on_blank_line_text)
  show "split_message blank_line_text 4000 = Some [replicate 4000 97, [98]]"
    by (simp add: split_message_def split_on_blank_line_text)
  have joined: "length (join_lines [replicate 4000 97, [98]]) = 4002"
    by simp
  have whole: "length blank_line_text = 4003"
    by (simp add: blank_line_text_def)
  show "join_lines [replicate 4000 97, [98]] \<noteq> blank_line_text"
  proof
    assume "join_lines [replicate 4000 97, [98]] = blank_line_text"
    then have "length (join_lines [replicate 4000 97, [98]]) = length blank_line_text"
      by (rule arg_cong)
    then show False
      by (simp only: joined whole)
  qed
qed

end
